theory Spec2Isabelle
  imports Complex_Main "HOL-Library.Word"
begin

section \<open>Adaptive frame sampling (src/api/adaptive_sampling.py)\<close>

text \<open>
  The sampler is a Python object whose methods mutate its fields. It is embedded as a
  record of those fields; every method takes the record and returns the updated one.
  A private attribute \<^verbatim>\<open>self._x\<close> is the field \<open>self_x\<close>. Python integers are
  \<open>int\<close>, Python floats are \<open>real\<close> (thresholds, clock readings, ratios) or
  \<open>pyfloat\<close> where the source can produce a not-a-number. The wall clock and the
  performance counter are inputs of each call.
\<close>

subsection \<open>Data model\<close>

datatype SamplingReason =
    MOTION_SPIKE
  | ID_SWITCH
  | CROWD_CHANGE
  | LOCK_ON_ACTIVE
  | USER_SEEK
  | STABLE_SCENE
  | INITIALIZATION
  | DEFAULT

text \<open>The \<^verbatim>\<open>.value\<close> of each member of the enum.\<close>

fun reason_value :: "SamplingReason \<Rightarrow> string" where
  "reason_value MOTION_SPIKE = ''motion_spike''"
| "reason_value ID_SWITCH = ''id_switch''"
| "reason_value CROWD_CHANGE = ''crowd_change''"
| "reason_value LOCK_ON_ACTIVE = ''lock_on_active''"
| "reason_value USER_SEEK = ''user_seek''"
| "reason_value STABLE_SCENE = ''stable_scene''"
| "reason_value INITIALIZATION = ''initialization''"
| "reason_value DEFAULT = ''default''"

text \<open>
  A float that may be not-a-number: numpy returns \<open>nan\<close> (with a warning, not an
  exception) for the mean of an empty list and for \<open>0 / 0\<close>. Every comparison with
  \<open>nan\<close> is false.
\<close>

datatype pyfloat = Fin real | NaN

fun float_gt :: "pyfloat \<Rightarrow> real \<Rightarrow> bool" where
  "float_gt (Fin x) t = (x > t)"
| "float_gt NaN t = False"

fun float_lt :: "pyfloat \<Rightarrow> real \<Rightarrow> bool" where
  "float_lt (Fin x) t = (x < t)"
| "float_lt NaN t = False"

fun float_add :: "pyfloat \<Rightarrow> pyfloat \<Rightarrow> pyfloat" where
  "float_add (Fin x) (Fin y) = Fin (x + y)"
| "float_add _ _ = NaN"

text \<open>\<^verbatim>\<open>np.mean\<close> of a list of floats.\<close>

definition np_mean :: "pyfloat list \<Rightarrow> pyfloat" where
  "np_mean xs =
     (if xs = [] then NaN
      else case foldr float_add xs (Fin 0) of
             Fin t \<Rightarrow> Fin (t / real (length xs))
           | NaN \<Rightarrow> NaN)"

text \<open>The division of a numpy integer by a Python integer.\<close>

definition np_true_divide :: "nat \<Rightarrow> nat \<Rightarrow> pyfloat" where
  "np_true_divide a b = (if b = 0 then NaN else Fin (real a / real b))"

record SamplingMetrics =
  frames_processed :: int
  frames_skipped :: int
  total_frames :: int
  current_interval :: int
  avg_motion_score :: pyfloat
  detection_count :: int
  id_switches :: int
  lock_events :: int
  processing_time_ms :: real
  last_reason :: SamplingReason

definition SamplingMetrics_default :: SamplingMetrics where
  "SamplingMetrics_default =
     \<lparr> frames_processed = 0, frames_skipped = 0, total_frames = 0,
       current_interval = 2, avg_motion_score = Fin 0, detection_count = 0,
       id_switches = 0, lock_events = 0, processing_time_ms = 0,
       last_reason = DEFAULT \<rparr>"

definition processing_ratio :: "SamplingMetrics \<Rightarrow> real" where
  "processing_ratio m =
     (if total_frames m = 0 then 0
      else (real_of_int (frames_processed m) / real_of_int (total_frames m)) * 100)"

definition efficiency_score :: "SamplingMetrics \<Rightarrow> real" where
  "efficiency_score m =
     (if frames_processed m = 0 then 0
      else real_of_int (detection_count m) / real_of_int (frames_processed m))"

record AdaptiveSamplingConfig =
  min_interval :: int
  max_interval :: int
  default_interval :: int
  motion_threshold_high :: real
  motion_threshold_low :: real
  motion_history_size :: int
  detection_change_threshold :: real
  id_switch_penalty :: int
  lock_on_boost_frames :: int
  seek_event_window :: real
  stability_window :: int
  enable_motion_detection :: bool
  enable_id_tracking :: bool
  enable_crowd_monitoring :: bool

definition AdaptiveSamplingConfig_default :: AdaptiveSamplingConfig where
  "AdaptiveSamplingConfig_default =
     \<lparr> min_interval = 1, max_interval = 8, default_interval = 2,
       motion_threshold_high = 15 / 100, motion_threshold_low = 5 / 100,
       motion_history_size = 10,
       detection_change_threshold = 3 / 10, id_switch_penalty = 3,
       lock_on_boost_frames = 15,
       seek_event_window = 2, stability_window = 30,
       enable_motion_detection = True, enable_id_tracking = True,
       enable_crowd_monitoring = True \<rparr>"

text \<open>
  A frame. The sampler looks at a frame only through
  \<^verbatim>\<open>cv2.GaussianBlur(cv2.cvtColor(frame, cv2.COLOR_BGR2GRAY), (21, 21), 0)\<close>,
  a single-channel \<^verbatim>\<open>uint8\<close> image of the frame's height and width. The frame is
  modelled by that image: its shape and its pixel at each row and column.
\<close>

record frame =
  shape0 :: nat
  shape1 :: nat
  gray :: "nat \<Rightarrow> nat \<Rightarrow> 8 word"

text \<open>
  A detection is a Python dict. The sampler reads only its \<^verbatim>\<open>'id'\<close> key:
  \<open>det_id\<close> is \<open>None\<close> when the dict has no such key.
\<close>

record detection =
  det_id :: "int option"

record telemetry_event =
  ev_timestamp :: real
  ev_frame_idx :: int
  ev_reason :: string
  ev_interval :: int
  ev_processed :: bool
  ev_motion_score :: pyfloat
  ev_detection_count :: int
  ev_processing_ratio :: real

record sampler =
  config :: AdaptiveSamplingConfig
  metrics :: SamplingMetrics
  self_current_interval :: int
  self_frame_count :: int
  self_last_processed_frame :: int
  self_prev_frame_gray :: "frame option"
  self_motion_history :: "pyfloat list"
  self_prev_detection_count :: int
  self_prev_track_ids :: "int set"
  self_stability_counter :: int
  self_lock_on_boost_remaining :: int
  self_id_switch_boost_remaining :: int
  self_last_seek_time :: real
  self_telemetry_events :: "telemetry_event list"
  self_max_telemetry_events :: int

text \<open>The clock readings of one call of \<^verbatim>\<open>should_process_frame\<close>, in the order the
  source takes them: \<^verbatim>\<open>time.perf_counter()\<close> on entry, \<^verbatim>\<open>time.time()\<close> at the seek
  handling, \<^verbatim>\<open>time.perf_counter()\<close> after the decision, \<^verbatim>\<open>time.time()\<close> inside
  \<^verbatim>\<open>_record_telemetry\<close>.\<close>

record clock =
  perf_start :: real
  wall :: real
  perf_end :: real
  wall_event :: real

text \<open>The only exception of the decision path: OpenCV's \<^verbatim>\<open>cv2.error\<close>.\<close>

datatype error = CvError

subsection \<open>Construction and reset\<close>

definition init :: "AdaptiveSamplingConfig \<Rightarrow> sampler" where
  "init cfg =
     \<lparr> config = cfg,
       metrics = SamplingMetrics_default,
       self_current_interval = default_interval cfg,
       self_frame_count = 0,
       self_last_processed_frame = - 1,
       self_prev_frame_gray = None,
       self_motion_history = [],
       self_prev_detection_count = 0,
       self_prev_track_ids = {},
       self_stability_counter = 0,
       self_lock_on_boost_remaining = 0,
       self_id_switch_boost_remaining = 0,
       self_last_seek_time = 0,
       self_telemetry_events = [],
       self_max_telemetry_events = 1000 \<rparr>"

definition reset :: "sampler \<Rightarrow> sampler" where
  "reset s =
     s\<lparr> metrics := SamplingMetrics_default,
        self_current_interval := default_interval (config s),
        self_frame_count := 0,
        self_last_processed_frame := - 1,
        self_prev_frame_gray := None,
        self_motion_history := [],
        self_prev_detection_count := 0,
        self_prev_track_ids := {},
        self_stability_counter := 0,
        self_lock_on_boost_remaining := 0,
        self_id_switch_boost_remaining := 0,
        self_last_seek_time := 0,
        self_telemetry_events := [] \<rparr>"

subsection \<open>Telemetry\<close>

text \<open>Lines 343-347: the event is appended and, when the buffer has grown beyond
  its capacity, the oldest event is popped.\<close>

definition append_bounded ::
  "int \<Rightarrow> telemetry_event list \<Rightarrow> telemetry_event \<Rightarrow> telemetry_event list" where
  "append_bounded capacity events event =
     (let appended = events @ [event]
      in if int (length appended) > capacity then tl appended else appended)"

definition record_telemetry ::
  "sampler \<Rightarrow> real \<Rightarrow> int \<Rightarrow> SamplingReason \<Rightarrow> int \<Rightarrow> bool \<Rightarrow> sampler" where
  "record_telemetry s now frame_idx reason interval processed =
     (let event =
            \<lparr> ev_timestamp = now,
              ev_frame_idx = frame_idx,
              ev_reason = reason_value reason,
              ev_interval = interval,
              ev_processed = processed,
              ev_motion_score = avg_motion_score (metrics s),
              ev_detection_count = detection_count (metrics s),
              ev_processing_ratio = processing_ratio (metrics s) \<rparr>
      in s\<lparr> self_telemetry_events :=
              append_bounded (self_max_telemetry_events s) (self_telemetry_events s) event \<rparr>)"

subsection \<open>Motion score\<close>

text \<open>
  The OpenCV and numpy calls of \<^verbatim>\<open>_calculate_motion_score\<close>, on the modelled image.
  \<^verbatim>\<open>cv2.cvtColor\<close> raises \<^verbatim>\<open>cv2.error\<close> on an empty image (its assertion
  \<^verbatim>\<open>!_src.empty()\<close>); the blur keeps the shape. \<^verbatim>\<open>cv2.absdiff\<close> raises
  \<^verbatim>\<open>cv2.error\<close> when its two \<^verbatim>\<open>uint8\<close> images differ in size; on images of the same
  size it is the absolute difference of the pixels. \<^verbatim>\<open>cv2.threshold\<close> with
  \<^verbatim>\<open>THRESH_BINARY\<close> maps a pixel above the threshold to the maximal value and every
  other pixel to 0.
\<close>

definition cv2_cvtColor_GaussianBlur :: "frame \<Rightarrow> error + frame" where
  "cv2_cvtColor_GaussianBlur f =
     (if shape0 f = 0 \<or> shape1 f = 0 then Inl CvError else Inr f)"

definition cv2_absdiff :: "frame \<Rightarrow> frame \<Rightarrow> error + frame" where
  "cv2_absdiff a b =
     (if shape0 a = shape0 b \<and> shape1 a = shape1 b
      then Inr \<lparr> shape0 = shape0 b, shape1 = shape1 b,
                 gray = (\<lambda>i j. if gray a i j \<le> gray b i j
                                then gray b i j - gray a i j
                                else gray a i j - gray b i j) \<rparr>
      else Inl CvError)"

definition cv2_threshold_binary :: "8 word \<Rightarrow> 8 word \<Rightarrow> frame \<Rightarrow> frame" where
  "cv2_threshold_binary thresh maxval f =
     f\<lparr> gray := (\<lambda>i j. if gray f i j > thresh then maxval else 0) \<rparr>"

text \<open>\<^verbatim>\<open>np.sum(thresh > 0)\<close>: the number of positive pixels.\<close>

definition np_sum_positive :: "frame \<Rightarrow> nat" where
  "np_sum_positive f =
     length (filter (\<lambda>(i, j). gray f i j > 0)
                    (List.product [0..<shape0 f] [0..<shape1 f]))"

definition calculate_motion_score :: "sampler \<Rightarrow> frame \<Rightarrow> error + pyfloat \<times> sampler" where
  "calculate_motion_score s frm =
     (case cv2_cvtColor_GaussianBlur frm of
        Inl e \<Rightarrow> Inl e
      | Inr gry \<Rightarrow>
          (case self_prev_frame_gray s of
             Some prev \<Rightarrow>
               (case cv2_absdiff prev gry of
                  Inl e \<Rightarrow> Inl e
                | Inr diff \<Rightarrow>
                    let thresh = cv2_threshold_binary 25 255 diff;
                        motion_score =
                          np_true_divide (np_sum_positive thresh)
                                         (shape0 thresh * shape1 thresh)
                    in Inr (motion_score, s\<lparr> self_prev_frame_gray := Some gry \<rparr>))
           | None \<Rightarrow> Inr (Fin 0, s\<lparr> self_prev_frame_gray := Some gry \<rparr>)))"

subsection \<open>The adaptive interval\<close>

text \<open>
  \<^verbatim>\<open>_calculate_adaptive_interval\<close> is a pipeline over the sampler and the two local
  variables \<^verbatim>\<open>interval\<close> and \<^verbatim>\<open>reason\<close>. Each block of the source is one stage.
\<close>

type_synonym stage_state = "sampler \<times> int \<times> SamplingReason"

text \<open>Lines 232-253: motion detection.\<close>

definition motion_stage :: "frame \<Rightarrow> stage_state \<Rightarrow> error + stage_state" where
  "motion_stage frm = (\<lambda>(s, interval, reason).
     if enable_motion_detection (config s) then
       (case calculate_motion_score s frm of
          Inl e \<Rightarrow> Inl e
        | Inr (motion_score, s1) \<Rightarrow>
            let appended = self_motion_history s1 @ [motion_score];
                history =
                  (if int (length appended) > motion_history_size (config s1)
                   then tl appended else appended);
                avg_motion = np_mean history;
                s2 = s1\<lparr> self_motion_history := history,
                         metrics := (metrics s1)\<lparr> avg_motion_score := avg_motion \<rparr> \<rparr>
            in if float_gt avg_motion (motion_threshold_high (config s2)) then
                 Inr (s2\<lparr> self_stability_counter := 0 \<rparr>,
                      min_interval (config s2), MOTION_SPIKE)
               else if float_lt avg_motion (motion_threshold_low (config s2)) then
                 Inr (s2\<lparr> self_stability_counter := self_stability_counter s2 + 1 \<rparr>,
                      interval, reason)
               else
                 Inr (s2\<lparr> self_stability_counter := 0 \<rparr>, interval, reason))
     else Inr (s, interval, reason))"

text \<open>Lines 255-267: detection count changes (crowd monitoring).\<close>

definition crowd_stage :: "detection list option \<Rightarrow> stage_state \<Rightarrow> stage_state" where
  "crowd_stage detections = (\<lambda>(s, interval, reason).
     case detections of
       None \<Rightarrow> (s, interval, reason)
     | Some dets \<Rightarrow>
         if enable_crowd_monitoring (config s) then
           let current_count = int (length dets);
               (s1, interval1, reason1) =
                 (if self_prev_detection_count s > 0 then
                    let count_change =
                          real_of_int \<bar>current_count - self_prev_detection_count s\<bar>
                            / real_of_int (self_prev_detection_count s)
                    in if count_change > detection_change_threshold (config s) then
                         (s\<lparr> self_stability_counter := 0 \<rparr>,
                          min interval (min_interval (config s) + 1), CROWD_CHANGE)
                       else (s, interval, reason)
                  else (s, interval, reason))
           in (s1\<lparr> self_prev_detection_count := current_count \<rparr>, interval1, reason1)
         else (s, interval, reason))"

text \<open>Lines 269-285: identity switch detection.\<close>

definition current_ids_of :: "detection list \<Rightarrow> int set" where
  "current_ids_of dets = set (List.map_filter det_id dets)"

definition id_stage :: "detection list option \<Rightarrow> stage_state \<Rightarrow> stage_state" where
  "id_stage detections = (\<lambda>(s, interval, reason).
     case detections of
       None \<Rightarrow> (s, interval, reason)
     | Some dets \<Rightarrow>
         if enable_id_tracking (config s) then
           let current_ids = current_ids_of dets;
               (s1, interval1, reason1) =
                 (if self_prev_track_ids s \<noteq> {} \<and> current_ids \<noteq> self_prev_track_ids s then
                    let new_ids = current_ids - self_prev_track_ids s;
                        lost_ids = self_prev_track_ids s - current_ids
                    in if new_ids \<noteq> {} \<or> lost_ids \<noteq> {} then
                         (s\<lparr> self_id_switch_boost_remaining := id_switch_penalty (config s),
                             metrics := (metrics s)\<lparr> id_switches := id_switches (metrics s) + 1 \<rparr>,
                             self_stability_counter := 0 \<rparr>,
                          min_interval (config s), ID_SWITCH)
                       else (s, interval, reason)
                  else (s, interval, reason))
           in (s1\<lparr> self_prev_track_ids := current_ids \<rparr>, interval1, reason1)
         else (s, interval, reason))"

text \<open>Lines 287-291: stability reduction.\<close>

definition stability_stage :: "stage_state \<Rightarrow> stage_state" where
  "stability_stage = (\<lambda>(s, interval, reason).
     if self_stability_counter s \<ge> stability_window (config s) then
       (if reason = DEFAULT then
          (s, min (max_interval (config s)) (interval + 1), STABLE_SCENE)
        else (s, interval, reason))
     else (s, interval, reason))"

text \<open>Lines 293-296: the interval is clamped and returned with the reason.\<close>

definition clamp_stage :: "stage_state \<Rightarrow> stage_state" where
  "clamp_stage = (\<lambda>(s, interval, reason).
     (s, max (min_interval (config s)) (min (max_interval (config s)) interval), reason))"

definition calculate_adaptive_interval ::
  "sampler \<Rightarrow> frame \<Rightarrow> detection list option \<Rightarrow> error + stage_state" where
  "calculate_adaptive_interval s frm detections =
     (case motion_stage frm (s, default_interval (config s), DEFAULT) of
        Inl e \<Rightarrow> Inl e
      | Inr st \<Rightarrow>
          Inr (clamp_stage (stability_stage (id_stage detections (crowd_stage detections st)))))"

subsection \<open>The decision\<close>

text \<open>Python's \<^verbatim>\<open>str\<close> of an integer, for the reason label.\<close>

fun str_nat :: "nat \<Rightarrow> string" where
  "str_nat n =
     (if n < 10 then [''0123456789'' ! n]
      else str_nat (n div 10) @ [''0123456789'' ! (n mod 10)])"

declare str_nat.simps [simp del]

definition str_int :: "int \<Rightarrow> string" where
  "str_int i = (if i < 0 then CHR ''-'' # str_nat (nat (- i)) else str_nat (nat i))"

text \<open>The label \<^verbatim>\<open>f"{reason.value} (interval={interval})"\<close>.\<close>

definition reason_str :: "SamplingReason \<Rightarrow> int \<Rightarrow> string" where
  "reason_str reason interval =
     reason_value reason @ '' (interval='' @ str_int interval @ '')''"

text \<open>
  Lines 174-191 of \<^verbatim>\<open>should_process_frame\<close>: the seek boost window, the lock-on boost,
  the identity switch boost, and otherwise the adaptive calculation.
\<close>

definition choose_interval ::
  "sampler \<Rightarrow> real \<Rightarrow> frame \<Rightarrow> detection list option \<Rightarrow> bool \<Rightarrow> error + stage_state" where
  "choose_interval s now frm detections lock_on_active =
     (if now - self_last_seek_time s < seek_event_window (config s) then
        Inr (s, 1, USER_SEEK)
      else if lock_on_active then
        Inr (s\<lparr> self_lock_on_boost_remaining := lock_on_boost_frames (config s),
                metrics := (metrics s)\<lparr> lock_events := lock_events (metrics s) + 1 \<rparr> \<rparr>,
             1, LOCK_ON_ACTIVE)
      else if self_id_switch_boost_remaining s > 0 then
        Inr (s\<lparr> self_id_switch_boost_remaining := self_id_switch_boost_remaining s - 1 \<rparr>,
             1, ID_SWITCH)
      else calculate_adaptive_interval s frm detections)"

text \<open>
  Lines 193-219: the interval and the reason are stored, the frame is processed when
  enough frames have elapsed since the last processed one, the counters are updated
  and the decision is recorded.
\<close>

definition apply_interval ::
  "clock \<Rightarrow> int \<Rightarrow> detection list option \<Rightarrow> stage_state \<Rightarrow> (bool \<times> string) \<times> sampler" where
  "apply_interval clk frame_idx detections = (\<lambda>(s, interval, reason).
     let s1 = s\<lparr> self_current_interval := interval,
                 metrics := (metrics s)\<lparr> current_interval := interval,
                                          last_reason := reason \<rparr> \<rparr>;
         should_process = (frame_idx - self_last_processed_frame s1 \<ge> interval);
         s2 = (if should_process then
                 s1\<lparr> self_last_processed_frame := frame_idx,
                     metrics := (metrics s1)
                       \<lparr> frames_processed := frames_processed (metrics s1) + 1,
                         detection_count :=
                           (case detections of
                              Some dets \<Rightarrow> detection_count (metrics s1) + int (length dets)
                            | None \<Rightarrow> detection_count (metrics s1)) \<rparr> \<rparr>
               else
                 s1\<lparr> metrics := (metrics s1)
                       \<lparr> frames_skipped := frames_skipped (metrics s1) + 1 \<rparr> \<rparr>);
         s3 = s2\<lparr> metrics := (metrics s2)
                    \<lparr> processing_time_ms := (perf_end clk - perf_start clk) * 1000 \<rparr> \<rparr>;
         s4 = record_telemetry s3 (wall_event clk) frame_idx reason interval should_process
     in ((should_process, reason_str reason interval), s4))"

text \<open>Lines 164-165: the sampler on entry of a call.\<close>

definition entered :: "sampler \<Rightarrow> int \<Rightarrow> sampler" where
  "entered s frame_idx =
     s\<lparr> self_frame_count := frame_idx,
        metrics := (metrics s)
          \<lparr> total_frames := max (total_frames (metrics s)) (frame_idx + 1) \<rparr> \<rparr>"

text \<open>
  \<^verbatim>\<open>should_process_frame\<close>: lines 167-172 handle a seek event and return; every other
  call chooses an interval and goes through the gate.
\<close>

definition should_process_frame ::
  "sampler \<Rightarrow> clock \<Rightarrow> int \<Rightarrow> frame \<Rightarrow> detection list option \<Rightarrow> bool \<Rightarrow> bool
     \<Rightarrow> error + (bool \<times> string) \<times> sampler" where
  "should_process_frame s clk frame_idx frm detections lock_on_active seek_event =
     (let s0 = entered s frame_idx
      in if seek_event then
           let s1 = s0\<lparr> self_last_seek_time := wall clk \<rparr>;
               s2 = record_telemetry s1 (wall_event clk) frame_idx USER_SEEK 1 True;
               s3 = s2\<lparr> metrics := (metrics s2)\<lparr> last_reason := USER_SEEK \<rparr> \<rparr>
           in Inr ((True, ''User seek event''), s3)
         else
           (case choose_interval s0 (wall clk) frm detections lock_on_active of
              Inl e \<Rightarrow> Inl e
            | Inr st \<Rightarrow> Inr (apply_interval clk frame_idx detections st)))"

subsection \<open>Sessions\<close>

text \<open>
  The arguments of one call, with its clock readings, and a session: the calls made
  one after the other on the same sampler. An exception ends the session.
\<close>

record call =
  c_clock :: clock
  c_frame_idx :: int
  c_frame :: frame
  c_detections :: "detection list option"
  c_lock_on_active :: bool
  c_seek_event :: bool

definition step :: "sampler \<Rightarrow> call \<Rightarrow> error + (bool \<times> string) \<times> sampler" where
  "step s c =
     should_process_frame s (c_clock c) (c_frame_idx c) (c_frame c) (c_detections c)
       (c_lock_on_active c) (c_seek_event c)"

fun run :: "sampler \<Rightarrow> call list \<Rightarrow> error + (bool \<times> string) list \<times> sampler" where
  "run s [] = Inr ([], s)"
| "run s (c # cs) =
     (case step s c of
        Inl e \<Rightarrow> Inl e
      | Inr (d, s1) \<Rightarrow>
          (case run s1 cs of
             Inl e \<Rightarrow> Inl e
           | Inr (ds, s2) \<Rightarrow> Inr (d # ds, s2)))"

subsection \<open>Auxiliary predicates\<close>

text \<open>
  The predicates below are not part of the program. They name what each part of a
  decision leaves unchanged or establishes, for the lemmas of the second section.
\<close>

text \<open>What choosing the interval never writes.\<close>

definition kept :: "sampler \<Rightarrow> sampler \<Rightarrow> bool" where
  "kept s t \<longleftrightarrow>
     config t = config s \<and>
     self_current_interval t = self_current_interval s \<and>
     self_last_processed_frame t = self_last_processed_frame s \<and>
     self_last_seek_time t = self_last_seek_time s \<and>
     self_telemetry_events t = self_telemetry_events s \<and>
     self_max_telemetry_events t = self_max_telemetry_events s \<and>
     frames_processed (metrics t) = frames_processed (metrics s) \<and>
     frames_skipped (metrics t) = frames_skipped (metrics s) \<and>
     detection_count (metrics t) = detection_count (metrics s)"

text \<open>The reasons the adaptive calculation can return.\<close>

definition adaptive_reason :: "SamplingReason \<Rightarrow> bool" where
  "adaptive_reason r \<longleftrightarrow> r \<in> {DEFAULT, MOTION_SPIKE, CROWD_CHANGE, ID_SWITCH, STABLE_SCENE}"

text \<open>What a decision that went through the gate has done to the sampler.\<close>

definition gated :: "int \<Rightarrow> detection list option \<Rightarrow> sampler \<Rightarrow> int \<Rightarrow> SamplingReason
    \<Rightarrow> bool \<Rightarrow> string \<Rightarrow> sampler \<Rightarrow> bool" where
  "gated i d t k r p lbl s' \<longleftrightarrow>
     p = (i - self_last_processed_frame t \<ge> k) \<and>
     lbl = reason_str r k \<and>
     config s' = config t \<and>
     self_current_interval s' = k \<and>
     current_interval (metrics s') = k \<and>
     last_reason (metrics s') = r \<and>
     self_last_processed_frame s' = (if p then i else self_last_processed_frame t) \<and>
     frames_processed (metrics s') = frames_processed (metrics t) + (if p then 1 else 0) \<and>
     frames_skipped (metrics s') = frames_skipped (metrics t) + (if p then 0 else 1) \<and>
     detection_count (metrics s') =
       detection_count (metrics t)
         + (if p then (case d of Some dets \<Rightarrow> int (length dets) | None \<Rightarrow> 0) else 0) \<and>
     self_prev_detection_count s' = self_prev_detection_count t \<and>
     self_prev_track_ids s' = self_prev_track_ids t \<and>
     self_max_telemetry_events s' = self_max_telemetry_events t \<and>
     (\<exists>e. ev_frame_idx e = i \<and> ev_reason e = reason_value r \<and> ev_interval e = k
          \<and> ev_processed e = p
          \<and> self_telemetry_events s' =
               append_bounded (self_max_telemetry_events t) (self_telemetry_events t) e)"

text \<open>What a decision on a seek event has done to the sampler.\<close>

definition sought :: "sampler \<Rightarrow> clock \<Rightarrow> int \<Rightarrow> sampler \<Rightarrow> bool" where
  "sought s clk i s' \<longleftrightarrow>
     config s' = config s \<and>
     last_reason (metrics s') = USER_SEEK \<and>
     self_last_seek_time s' = wall clk \<and>
     self_current_interval s' = self_current_interval s \<and>
     self_last_processed_frame s' = self_last_processed_frame s \<and>
     frames_processed (metrics s') = frames_processed (metrics s) \<and>
     frames_skipped (metrics s') = frames_skipped (metrics s) \<and>
     detection_count (metrics s') = detection_count (metrics s) \<and>
     self_prev_detection_count s' = self_prev_detection_count s \<and>
     self_prev_track_ids s' = self_prev_track_ids s \<and>
     self_max_telemetry_events s' = self_max_telemetry_events s \<and>
     (\<exists>e. ev_frame_idx e = i \<and> ev_reason e = reason_value USER_SEEK \<and> ev_interval e = 1
          \<and> ev_processed e
          \<and> self_telemetry_events s' =
               append_bounded (self_max_telemetry_events s) (self_telemetry_events s) e)"

text \<open>The condition under which the identity stage changes the interval and the reason.\<close>

definition id_switch_fires :: "sampler \<Rightarrow> detection list \<Rightarrow> bool" where
  "id_switch_fires s dets \<longleftrightarrow>
     enable_id_tracking (config s) \<and> self_prev_track_ids s \<noteq> {}
     \<and> current_ids_of dets \<noteq> self_prev_track_ids s"

subsection \<open>Concrete inputs\<close>

text \<open>A one-pixel still frame, a clock far from any seek, and calls built from them.\<close>

definition still_frame :: frame where
  "still_frame = \<lparr> shape0 = 1, shape1 = 1, gray = (\<lambda>i j. 7) \<rparr>"

definition plain_clock :: clock where
  "plain_clock = \<lparr> perf_start = 0, wall = 1000, perf_end = 1, wall_event = 1000 \<rparr>"

definition plain_call :: "int \<Rightarrow> call" where
  "plain_call i =
     \<lparr> c_clock = plain_clock, c_frame_idx = i, c_frame = still_frame,
       c_detections = None, c_lock_on_active = False, c_seek_event = False \<rparr>"

definition seek_call :: "int \<Rightarrow> call" where
  "seek_call i =
     \<lparr> c_clock = plain_clock, c_frame_idx = i, c_frame = still_frame,
       c_detections = None, c_lock_on_active = False, c_seek_event = True \<rparr>"

definition lock_call :: "int \<Rightarrow> call" where
  "lock_call i =
     \<lparr> c_clock = plain_clock, c_frame_idx = i, c_frame = still_frame,
       c_detections = None, c_lock_on_active = True, c_seek_event = False \<rparr>"

text \<open>Frames of other shapes, and detection lists with and without identities.\<close>

definition empty_frame :: frame where
  "empty_frame = \<lparr> shape0 = 0, shape1 = 0, gray = (\<lambda>i j. 0) \<rparr>"

definition square_frame :: "nat \<Rightarrow> frame" where
  "square_frame n = \<lparr> shape0 = n, shape1 = n, gray = (\<lambda>i j. 7) \<rparr>"

definition frame_call :: "int \<Rightarrow> frame \<Rightarrow> call" where
  "frame_call i f =
     \<lparr> c_clock = plain_clock, c_frame_idx = i, c_frame = f,
       c_detections = None, c_lock_on_active = False, c_seek_event = False \<rparr>"

definition tracked :: "int list \<Rightarrow> detection list" where
  "tracked ids = map (\<lambda>i. \<lparr> det_id = Some i \<rparr>) ids"

definition untracked :: "nat \<Rightarrow> detection list" where
  "untracked n = replicate n \<lparr> det_id = None \<rparr>"

definition detect_call :: "int \<Rightarrow> detection list \<Rightarrow> call" where
  "detect_call i dets =
     \<lparr> c_clock = plain_clock, c_frame_idx = i, c_frame = still_frame,
       c_detections = Some dets, c_lock_on_active = False, c_seek_event = False \<rparr>"

text \<open>A fresh sampler, one whose telemetry buffer holds two events at most, and one
  that has seen two tracked detections.\<close>

definition fresh_sampler :: sampler where
  "fresh_sampler = init AdaptiveSamplingConfig_default"

definition small_buffer_sampler :: sampler where
  "small_buffer_sampler = fresh_sampler\<lparr> self_max_telemetry_events := 2 \<rparr>"

definition tracking_sampler :: sampler where
  "tracking_sampler =
     fresh_sampler\<lparr> self_prev_detection_count := 2, self_prev_track_ids := {1, 2} \<rparr>"

text \<open>A sampler that has seen two detections without identities.\<close>

definition counting_sampler :: sampler where
  "counting_sampler = fresh_sampler\<lparr> self_prev_detection_count := 2 \<rparr>"

section \<open>Properties\<close>

lemmas decision_defs =
  step_def should_process_frame_def entered_def choose_interval_def
  calculate_adaptive_interval_def
  motion_stage_def crowd_stage_def id_stage_def stability_stage_def clamp_stage_def
  apply_interval_def record_telemetry_def append_bounded_def calculate_motion_score_def
  cv2_cvtColor_GaussianBlur_def cv2_absdiff_def cv2_threshold_binary_def
  np_sum_positive_def np_true_divide_def np_mean_def init_def
  AdaptiveSamplingConfig_default_def SamplingMetrics_default_def Let_def
  processing_ratio_def

lemmas input_defs =
  still_frame_def plain_clock_def plain_call_def seek_call_def lock_call_def
  fresh_sampler_def small_buffer_sampler_def tracking_sampler_def
  empty_frame_def square_frame_def frame_call_def tracked_def untracked_def
  detect_call_def counting_sampler_def

lemmas label_defs = reason_str_def str_int_def str_nat.simps

subsection \<open>What each part of a decision writes\<close>

lemma calculate_motion_score_state:
  "calculate_motion_score s f = Inr (x, t) \<Longrightarrow> t = s\<lparr> self_prev_frame_gray := Some f \<rparr>"
  by (simp add: calculate_motion_score_def cv2_cvtColor_GaussianBlur_def Let_def
           split: if_splits option.splits sum.splits)

lemma kept_refl [simp]: "kept s s" by (simp add: kept_def)

lemma kept_trans: "kept s t \<Longrightarrow> kept t u \<Longrightarrow> kept s u" by (simp add: kept_def)

lemma entered_kept: "kept s (entered s i)"
  by (simp add: kept_def entered_def)

lemma entered_fields:
  "self_prev_detection_count (entered s i) = self_prev_detection_count s"
  "self_prev_track_ids (entered s i) = self_prev_track_ids s"
  by (simp_all add: entered_def)

lemma motion_stage_kept:
  assumes "motion_stage f (s, i, r) = Inr (t, k, r')"
  shows "kept s t \<and> self_prev_detection_count t = self_prev_detection_count s
           \<and> self_prev_track_ids t = self_prev_track_ids s
           \<and> (r' = r \<and> k = i \<or> r' = MOTION_SPIKE \<and> k = min_interval (config s))"
proof (cases "enable_motion_detection (config s)")
  case False
  with assms show ?thesis by (auto simp: motion_stage_def)
next
  case True
  with assms obtain x s1 where sc: "calculate_motion_score s f = Inr (x, s1)"
    by (auto simp: motion_stage_def split: sum.splits)
  have s1: "s1 = s\<lparr> self_prev_frame_gray := Some f \<rparr>"
    using sc by (rule calculate_motion_score_state)
  show ?thesis
    using assms True sc
    by (auto simp: motion_stage_def Let_def s1 kept_def split: if_splits)
qed

lemma crowd_stage_kept:
  assumes "crowd_stage d (s, i, r) = (t, k, r')"
  shows "kept s t \<and> self_prev_track_ids t = self_prev_track_ids s
           \<and> (d = None \<longrightarrow> self_prev_detection_count t = self_prev_detection_count s)
           \<and> (r' = r \<and> k = i \<or> r' = CROWD_CHANGE \<and> k = min i (min_interval (config s) + 1))"
  using assms
  by (auto simp: crowd_stage_def Let_def kept_def split: option.splits if_splits)

lemma id_stage_kept:
  assumes "id_stage d (s, i, r) = (t, k, r')"
  shows "kept s t \<and> self_prev_detection_count t = self_prev_detection_count s
           \<and> (d = None \<longrightarrow> self_prev_track_ids t = self_prev_track_ids s)
           \<and> (r' = r \<and> k = i \<or> r' = ID_SWITCH \<and> k = min_interval (config s))"
  using assms
  by (auto simp: id_stage_def Let_def kept_def split: option.splits if_splits)

lemma stability_stage_kept:
  assumes "stability_stage (s, i, r) = (t, k, r')"
  shows "t = s \<and> (r' = r \<and> k = i \<or> r = DEFAULT \<and> r' = STABLE_SCENE \<and> k = min (max_interval (config s)) (i + 1))"
  using assms by (auto simp: stability_stage_def split: if_splits)

lemma clamp_stage_kept:
  assumes "clamp_stage (s, i, r) = (t, k, r')"
  shows "t = s \<and> r' = r \<and> k = max (min_interval (config s)) (min (max_interval (config s)) i)"
  using assms by (auto simp: clamp_stage_def)

lemma calculate_adaptive_interval_kept:
  assumes "calculate_adaptive_interval s f d = Inr (t, k, r)"
  shows "kept s t \<and> adaptive_reason r
           \<and> (d = None \<longrightarrow> self_prev_detection_count t = self_prev_detection_count s
                              \<and> self_prev_track_ids t = self_prev_track_ids s)"
proof -
  from assms obtain s1 i1 r1 where
    m: "motion_stage f (s, default_interval (config s), DEFAULT) = Inr (s1, i1, r1)"
    and rest: "clamp_stage (stability_stage (id_stage d (crowd_stage d (s1, i1, r1)))) = (t, k, r)"
    by (auto simp: calculate_adaptive_interval_def split: sum.splits)
  obtain s2 i2 r2 where c: "crowd_stage d (s1, i1, r1) = (s2, i2, r2)"
    by (cases "crowd_stage d (s1, i1, r1)") auto
  obtain s3 i3 r3 where i: "id_stage d (s2, i2, r2) = (s3, i3, r3)"
    by (cases "id_stage d (s2, i2, r2)") auto
  obtain s4 i4 r4 where st: "stability_stage (s3, i3, r3) = (s4, i4, r4)"
    by (cases "stability_stage (s3, i3, r3)") auto
  from rest c i st have cl: "clamp_stage (s4, i4, r4) = (t, k, r)" by simp
  note M = motion_stage_kept [OF m] and C = crowd_stage_kept [OF c]
    and I = id_stage_kept [OF i] and S = stability_stage_kept [OF st]
    and L = clamp_stage_kept [OF cl]
  have "kept s t" using M C I S L by (auto intro: kept_trans)
  moreover have "adaptive_reason r"
    using M C I S L unfolding adaptive_reason_def by auto
  moreover have "d = None \<longrightarrow> self_prev_detection_count t = self_prev_detection_count s
                              \<and> self_prev_track_ids t = self_prev_track_ids s"
    using M C I S L by auto
  ultimately show ?thesis by blast
qed

lemma choose_interval_kept:
  assumes "choose_interval s now f d l = Inr (t, k, r)"
  shows "kept s t \<and> r \<noteq> INITIALIZATION
           \<and> (d = None \<longrightarrow> self_prev_detection_count t = self_prev_detection_count s
                              \<and> self_prev_track_ids t = self_prev_track_ids s)
           \<and> (l \<longrightarrow> k = 1 \<and> (r = LOCK_ON_ACTIVE \<or> r = USER_SEEK))"
proof (cases "now - self_last_seek_time s < seek_event_window (config s) \<or> l
               \<or> self_id_switch_boost_remaining s > 0")
  case True
  with assms show ?thesis
    by (auto simp: choose_interval_def kept_def split: if_splits)
next
  case False
  with assms have "calculate_adaptive_interval s f d = Inr (t, k, r)"
    by (simp add: choose_interval_def)
  from calculate_adaptive_interval_kept [OF this] False show ?thesis
    by (auto simp: adaptive_reason_def)
qed

lemma record_telemetry_state:
  "\<exists>e. ev_frame_idx e = i \<and> ev_reason e = reason_value r \<and> ev_interval e = k
        \<and> ev_processed e = p
        \<and> record_telemetry s now i r k p =
            s\<lparr> self_telemetry_events :=
                 append_bounded (self_max_telemetry_events s) (self_telemetry_events s) e \<rparr>"
  by (rule exI [of _ "\<lparr> ev_timestamp = now, ev_frame_idx = i, ev_reason = reason_value r,
        ev_interval = k, ev_processed = p, ev_motion_score = avg_motion_score (metrics s),
        ev_detection_count = detection_count (metrics s),
        ev_processing_ratio = processing_ratio (metrics s) \<rparr>"])
     (simp add: record_telemetry_def Let_def)

lemma apply_interval_gated:
  assumes "apply_interval clk i d (t, k, r) = ((p, lbl), s')"
  shows "gated i d t k r p lbl s'"
proof -
  define u where "u = (if i - self_last_processed_frame t \<ge> k then
         t\<lparr> self_current_interval := k, self_last_processed_frame := i,
            metrics := (metrics t)\<lparr> current_interval := k, last_reason := r,
               frames_processed := frames_processed (metrics t) + 1,
               detection_count := (case d of Some dets \<Rightarrow> detection_count (metrics t) + int (length dets)
                            | None \<Rightarrow> detection_count (metrics t)),
               processing_time_ms := (perf_end clk - perf_start clk) * 1000 \<rparr> \<rparr>
       else
         t\<lparr> self_current_interval := k,
            metrics := (metrics t)\<lparr> current_interval := k, last_reason := r,
               frames_skipped := frames_skipped (metrics t) + 1,
               processing_time_ms := (perf_end clk - perf_start clk) * 1000 \<rparr> \<rparr>)"
  have A: "apply_interval clk i d (t, k, r) =
        ((i - self_last_processed_frame t \<ge> k, reason_str r k),
         record_telemetry u (wall_event clk) i r k (i - self_last_processed_frame t \<ge> k))"
    by (simp add: apply_interval_def Let_def u_def split: option.splits)
  obtain e where e: "ev_frame_idx e = i" "ev_reason e = reason_value r" "ev_interval e = k"
      "ev_processed e = (i - self_last_processed_frame t \<ge> k)"
      "record_telemetry u (wall_event clk) i r k (i - self_last_processed_frame t \<ge> k) =
         u\<lparr> self_telemetry_events :=
              append_bounded (self_max_telemetry_events u) (self_telemetry_events u) e \<rparr>"
    using record_telemetry_state [of i r k "i - self_last_processed_frame t \<ge> k" u "wall_event clk"]
    by blast
  from assms A e(5) have p: "p = (i - self_last_processed_frame t \<ge> k)"
    and lbl: "lbl = reason_str r k"
    and s': "s' = u\<lparr> self_telemetry_events :=
              append_bounded (self_max_telemetry_events u) (self_telemetry_events u) e \<rparr>"
    by simp_all
  have ev: "\<exists>e. ev_frame_idx e = i \<and> ev_reason e = reason_value r \<and> ev_interval e = k
          \<and> ev_processed e = p
          \<and> self_telemetry_events s' =
               append_bounded (self_max_telemetry_events t) (self_telemetry_events t) e"
    using e(1-4) by (intro exI [of _ e]) (simp add: s' p u_def)
  show ?thesis
    unfolding gated_def using ev
    by (simp add: p lbl s' u_def split: option.splits)
qed

lemma seek_decision:
  "\<exists>s'. should_process_frame s clk i f d l True = Inr ((True, ''User seek event''), s')
        \<and> sought s clk i s'"
proof -
  define u where "u = (entered s i)\<lparr> self_last_seek_time := wall clk \<rparr>"
  obtain e where e: "ev_frame_idx e = i" "ev_reason e = reason_value USER_SEEK"
      "ev_interval e = 1" "ev_processed e"
      "record_telemetry u (wall_event clk) i USER_SEEK 1 True =
         u\<lparr> self_telemetry_events :=
              append_bounded (self_max_telemetry_events u) (self_telemetry_events u) e \<rparr>"
    using record_telemetry_state [of i USER_SEEK 1 True u "wall_event clk"] by auto
  define s' where "s' = (record_telemetry u (wall_event clk) i USER_SEEK 1 True)
                 \<lparr> metrics := (metrics (record_telemetry u (wall_event clk) i USER_SEEK 1 True))
                     \<lparr> last_reason := USER_SEEK \<rparr> \<rparr>"
  have r: "should_process_frame s clk i f d l True = Inr ((True, ''User seek event''), s')"
    by (simp add: should_process_frame_def Let_def u_def entered_def s'_def)
  have s'': "s' = u\<lparr> self_telemetry_events :=
              append_bounded (self_max_telemetry_events u) (self_telemetry_events u) e,
              metrics := (metrics u)\<lparr> last_reason := USER_SEEK \<rparr> \<rparr>"
    unfolding s'_def e(5) by simp
  have "\<exists>e. ev_frame_idx e = i \<and> ev_reason e = reason_value USER_SEEK \<and> ev_interval e = 1
          \<and> ev_processed e
          \<and> self_telemetry_events s' =
               append_bounded (self_max_telemetry_events s) (self_telemetry_events s) e"
    using e(1-4) by (intro exI [of _ e]) (simp add: s'' u_def entered_def)
  then have "sought s clk i s'"
    unfolding sought_def by (simp add: s'' u_def entered_def)
  with r show ?thesis by blast
qed

lemma non_seek_decision:
  assumes "should_process_frame s clk i f d l False = Inr ((p, lbl), s')"
  shows "\<exists>t k r. choose_interval (entered s i) (wall clk) f d l = Inr (t, k, r)
                 \<and> gated i d t k r p lbl s'"
proof -
  from assms obtain st where
    c: "choose_interval (entered s i) (wall clk) f d l = Inr st"
    and a: "apply_interval clk i d st = ((p, lbl), s')"
    by (auto simp: should_process_frame_def Let_def entered_def split: sum.splits)
  obtain t k r where st: "st = (t, k, r)" by (cases st) auto
  from a st have "gated i d t k r p lbl s'" by (simp add: apply_interval_gated)
  with c st show ?thesis by blast
qed

lemma reason_value_initialization:
  "r \<noteq> INITIALIZATION \<Longrightarrow> reason_value r \<noteq> reason_value INITIALIZATION"
  by (cases r) simp_all

subsection \<open>The first frames of a session\<close>

text \<open>
  C1. A fresh sampler with the default configuration is given the identical still
  frames 0, 1, 2 with no detections, no lock-on and no seek. The claim expects the
  decisions process, skip, process. The code compares \<open>frame_idx - (-1)\<close> with the
  interval 2 on frame 0, so it decides skip, process, skip.
\<close>

theorem first_frames_default_config:
  "map_sum id (\<lambda>(ds, s). map fst ds)
     (run fresh_sampler [plain_call 0, plain_call 1, plain_call 2])
   = Inr [False, True, False]"
  by (simp add: decision_defs input_defs)

lemma still_frame_score:
  assumes "0 < shape0 f" and "0 < shape1 f" and "self_prev_frame_gray s = Some f"
  shows "calculate_motion_score s f = Inr (Fin 0, s)"
  using assms
  by (simp add: calculate_motion_score_def cv2_cvtColor_GaussianBlur_def cv2_absdiff_def
        np_true_divide_def Let_def np_sum_positive_def cv2_threshold_binary_def)

text \<open>The decisions are the same for every still frame of positive height and width
  and every clock outside the seek boost window.\<close>

lemma first_frames_any_still_frame:
  assumes "0 < shape0 f" and "0 < shape1 f"
    and "2 \<le> wall c0" and "2 \<le> wall c1" and "2 \<le> wall c2"
  shows "map_sum id (\<lambda>(ds, s). map fst ds)
     (run fresh_sampler
        [\<lparr> c_clock = c0, c_frame_idx = 0, c_frame = f, c_detections = None,
           c_lock_on_active = False, c_seek_event = False \<rparr>,
         \<lparr> c_clock = c1, c_frame_idx = 1, c_frame = f, c_detections = None,
           c_lock_on_active = False, c_seek_event = False \<rparr>,
         \<lparr> c_clock = c2, c_frame_idx = 2, c_frame = f, c_detections = None,
           c_lock_on_active = False, c_seek_event = False \<rparr>])
   = Inr [False, True, False]"
  using assms
  by (simp add: decision_defs fresh_sampler_def)

subsection \<open>Counting the calls\<close>

text \<open>
  C2. The claim expects the processed and the skipped counters to add up to the number
  of calls. A call with a seek event returns before either counter is touched: after one
  such call on a fresh sampler the decision is to process, and both counters are 0.
\<close>

theorem seek_call_is_not_counted:
  "map_sum id
     (\<lambda>(ds, s). (map fst ds, frames_processed (metrics s), frames_skipped (metrics s)))
     (run fresh_sampler [seek_call 0])
   = Inr ([True], 0, 0)"
  by (simp add: decision_defs input_defs)

text \<open>Every call without a seek event is counted once, and a call with one is not
  counted.\<close>

lemma frames_counted_per_call:
  assumes "step s c = Inr (res, s')"
  shows "frames_processed (metrics s') + frames_skipped (metrics s')
         = frames_processed (metrics s) + frames_skipped (metrics s)
             + (if c_seek_event c then 0 else 1)"
proof (cases "c_seek_event c")
  case True
  with assms seek_decision [of s "c_clock c" "c_frame_idx c" "c_frame c" "c_detections c" "c_lock_on_active c"]
  show ?thesis by (auto simp: step_def sought_def)
next
  case False
  obtain p lbl where res: "res = (p, lbl)" by (cases res) auto
  with assms False have "should_process_frame s (c_clock c) (c_frame_idx c) (c_frame c)
     (c_detections c) (c_lock_on_active c) False = Inr ((p, lbl), s')" by (simp add: step_def)
  from non_seek_decision [OF this] obtain t n r where
    c: "choose_interval (entered s (c_frame_idx c)) (wall (c_clock c)) (c_frame c)
          (c_detections c) (c_lock_on_active c) = Inr (t, n, r)"
    and g: "gated (c_frame_idx c) (c_detections c) t n r p lbl s'" by blast
  from choose_interval_kept [OF c] entered_kept [of s "c_frame_idx c"]
  have "frames_processed (metrics t) = frames_processed (metrics s)"
       "frames_skipped (metrics t) = frames_skipped (metrics s)"
    by (simp_all add: kept_def)
  with g False show ?thesis by (simp add: gated_def)
qed

lemma frames_counted_per_session:
  assumes "run s calls = Inr (ds, s')"
  shows "frames_processed (metrics s') + frames_skipped (metrics s')
         = frames_processed (metrics s) + frames_skipped (metrics s)
             + int (length (filter (\<lambda>c. \<not> c_seek_event c) calls))"
  using assms
proof (induction calls arbitrary: s ds)
  case Nil
  then show ?case by simp
next
  case (Cons c cs)
  from Cons.prems obtain d s1 ds1 where st: "step s c = Inr (d, s1)"
    and r: "run s1 cs = Inr (ds1, s')"
    by (auto split: sum.splits)
  from frames_counted_per_call [OF st] Cons.IH [OF r] show ?case by simp
qed

subsection \<open>Seek events\<close>

text \<open>
  C3. For every sampler state and every input, a call with \<open>seek_event = True\<close> returns
  the decision to process with the label of a user seek, leaves \<open>USER_SEEK\<close> as the last
  reason and records a processed \<open>user_seek\<close> event, whatever the distance to the last
  processed frame. Every call with \<open>seek_event = False\<close> that returns decides by the
  gate: the frame is processed exactly when the distance to the last processed frame
  reaches the interval chosen by the call.
\<close>

theorem seek_event_always_processed:
  "(\<exists>s' e. should_process_frame s clk i f d l True = Inr ((True, ''User seek event''), s')
          \<and> last_reason (metrics s') = USER_SEEK
          \<and> ev_reason e = reason_value USER_SEEK \<and> ev_processed e
          \<and> self_telemetry_events s' =
               append_bounded (self_max_telemetry_events s) (self_telemetry_events s) e)
   \<and> (\<forall>p lbl s'. should_process_frame s clk i f d l False = Inr ((p, lbl), s') \<longrightarrow>
          p = (i - self_last_processed_frame s \<ge> self_current_interval s'))"
proof (intro conjI allI impI)
  from seek_decision [of s clk i f d l]
  show "\<exists>s' e. should_process_frame s clk i f d l True = Inr ((True, ''User seek event''), s')
          \<and> last_reason (metrics s') = USER_SEEK
          \<and> ev_reason e = reason_value USER_SEEK \<and> ev_processed e
          \<and> self_telemetry_events s' =
               append_bounded (self_max_telemetry_events s) (self_telemetry_events s) e"
    unfolding sought_def by blast
next
  fix p lbl s'
  assume "should_process_frame s clk i f d l False = Inr ((p, lbl), s')"
  from non_seek_decision [OF this] obtain t k r where
    c: "choose_interval (entered s i) (wall clk) f d l = Inr (t, k, r)"
    and g: "gated i d t k r p lbl s'" by blast
  from choose_interval_kept [OF c] entered_kept [of s i]
  have "self_last_processed_frame t = self_last_processed_frame s"
    by (simp add: kept_def)
  with g show "p = (i - self_last_processed_frame s \<ge> self_current_interval s')"
    by (simp add: gated_def)
qed

theorem seek_event_always_processed_witness:
  "(case should_process_frame fresh_sampler plain_clock 0 still_frame None False False of
      Inl e \<Rightarrow> False
    | Inr ((p, lbl), s') \<Rightarrow>
        p = (0 - self_last_processed_frame fresh_sampler \<ge> self_current_interval s'))"
proof -
  have "\<exists>x. should_process_frame fresh_sampler plain_clock 0 still_frame None False False
          = Inr x"
    by (simp add: decision_defs input_defs) blast
  then obtain p lbl s' where
    eq: "should_process_frame fresh_sampler plain_clock 0 still_frame None False False
          = Inr ((p, lbl), s')" by (metis prod.exhaust)
  with seek_event_always_processed [of fresh_sampler plain_clock 0 still_frame None False]
  have "p = (0 - self_last_processed_frame fresh_sampler \<ge> self_current_interval s')"
    by blast
  with eq show ?thesis by simp
qed

subsection \<open>Lock-on\<close>

lemma lock_on_step:
  assumes "self_last_processed_frame s < i"
  shows "\<exists>lbl s'. should_process_frame s clk i f d True False = Inr ((True, lbl), s')
           \<and> (lbl = reason_str LOCK_ON_ACTIVE 1 \<or> lbl = reason_str USER_SEEK 1)
           \<and> self_current_interval s' = 1 \<and> self_last_processed_frame s' = i"
proof -
  obtain t r where c: "choose_interval (entered s i) (wall clk) f d True = Inr (t, 1, r)"
    by (cases "wall clk - self_last_seek_time (entered s i) < seek_event_window (config (entered s i))")
       (simp_all add: choose_interval_def)
  obtain p lbl s' where a: "apply_interval clk i d (t, 1, r) = ((p, lbl), s')"
    by (cases "apply_interval clk i d (t, 1, r)") auto
  have r: "should_process_frame s clk i f d True False = Inr ((p, lbl), s')"
    using c a by (simp add: should_process_frame_def Let_def entered_def)
  from choose_interval_kept [OF c] entered_kept [of s i]
  have k: "self_last_processed_frame t = self_last_processed_frame s"
    and rr: "r = LOCK_ON_ACTIVE \<or> r = USER_SEEK"
    by (simp_all add: kept_def)
  from apply_interval_gated [OF a] k assms rr
  have "p" "lbl = reason_str LOCK_ON_ACTIVE 1 \<or> lbl = reason_str USER_SEEK 1"
    "self_current_interval s' = 1" "self_last_processed_frame s' = i"
    by (auto simp: gated_def)
  with r show ?thesis by auto
qed

text \<open>
  C4. In a session of calls with strictly increasing frame indices, each with
  \<open>lock_on_active = True\<close> and \<open>seek_event = False\<close>, on a sampler that has processed no
  frame at or after these indices (a fresh sampler and frame indices from 0 on), no call
  raises, every call decides to process, and the interval of every decision is 1: its
  label is that of \<open>LOCK_ON_ACTIVE\<close>, or of \<open>USER_SEEK\<close> inside a seek boost window,
  with interval 1.
\<close>

theorem lock_on_processes_every_frame:
  assumes "sorted_wrt (<) (map c_frame_idx calls)"
    and "\<forall>c \<in> set calls. c_lock_on_active c \<and> \<not> c_seek_event c"
    and "\<forall>c \<in> set calls. self_last_processed_frame s < c_frame_idx c"
  shows "\<exists>ds s'. run s calls = Inr (ds, s') \<and> length ds = length calls
           \<and> (\<forall>d \<in> set ds. fst d \<and> (snd d = reason_str LOCK_ON_ACTIVE 1
                                        \<or> snd d = reason_str USER_SEEK 1))"
  using assms
proof (induction calls arbitrary: s)
  case Nil
  then show ?case by simp
next
  case (Cons c cs)
  from Cons.prems have lk: "c_lock_on_active c" "\<not> c_seek_event c"
    and lt: "self_last_processed_frame s < c_frame_idx c" by simp_all
  from lock_on_step [OF lt, of "c_clock c" "c_frame c" "c_detections c"] lk
  obtain lbl s1 where st: "step s c = Inr ((True, lbl), s1)"
    and lbl: "lbl = reason_str LOCK_ON_ACTIVE 1 \<or> lbl = reason_str USER_SEEK 1"
    and lp: "self_last_processed_frame s1 = c_frame_idx c"
    by (auto simp: step_def)
  from Cons.prems lp have "sorted_wrt (<) (map c_frame_idx cs)"
    "\<forall>c \<in> set cs. c_lock_on_active c \<and> \<not> c_seek_event c"
    "\<forall>c \<in> set cs. self_last_processed_frame s1 < c_frame_idx c"
    by auto
  from Cons.IH [OF this] obtain ds s' where
    r: "run s1 cs = Inr (ds, s')" and len: "length ds = length cs"
    and al: "\<forall>d \<in> set ds. fst d \<and> (snd d = reason_str LOCK_ON_ACTIVE 1
                                        \<or> snd d = reason_str USER_SEEK 1)"
    by blast
  have "run s (c # cs) = Inr ((True, lbl) # ds, s')" using st r by simp
  with len al lbl show ?case by auto
qed

theorem lock_on_processes_every_frame_witness:
  "map_sum id (\<lambda>(ds, s'). map fst ds)
     (run fresh_sampler [lock_call 0, lock_call 1, lock_call 2]) = Inr [True, True, True]"
proof -
  have "sorted_wrt (<) (map c_frame_idx [lock_call 0, lock_call 1, lock_call 2])"
    by (simp add: lock_call_def)
  moreover have "\<forall>c \<in> set [lock_call 0, lock_call 1, lock_call 2].
                   c_lock_on_active c \<and> \<not> c_seek_event c"
    by (simp add: lock_call_def)
  moreover have "\<forall>c \<in> set [lock_call 0, lock_call 1, lock_call 2].
                   self_last_processed_frame fresh_sampler < c_frame_idx c"
    by (simp add: lock_call_def fresh_sampler_def init_def)
  ultimately obtain ds s' where
    r: "run fresh_sampler [lock_call 0, lock_call 1, lock_call 2] = Inr (ds, s')"
    and len: "length ds = 3" and al: "\<forall>d \<in> set ds. fst d"
    using lock_on_processes_every_frame
            [of "[lock_call 0, lock_call 1, lock_call 2]" fresh_sampler]
    by auto
  have "map fst ds = replicate 3 True"
    using len al by (intro replicate_eqI) auto
  with r show ?thesis by (simp add: numeral_3_eq_3)
qed

subsection \<open>The telemetry buffer\<close>

lemma append_bounded_drop:
  assumes "0 \<le> cap" and "xs = drop (length L - nat cap) L"
  shows "append_bounded cap xs e = drop (length (L @ [e]) - nat cap) (L @ [e])"
proof (cases "length L < nat cap")
  case True
  then have fits: "\<not> int (length (xs @ [e])) > cap" and xs: "xs = L"
    and d: "length (L @ [e]) - nat cap = 0"
    using assms by simp_all
  have "append_bounded cap xs e = xs @ [e]"
    using fits unfolding append_bounded_def Let_def by (rule if_not_P)
  then show ?thesis by (simp only: xs d drop_0)
next
  case False
  then have len: "length xs = nat cap" using assms by simp
  have "append_bounded cap xs e = tl (xs @ [e])"
    using len assms(1) by (simp add: append_bounded_def Let_def)
  also have "xs @ [e] = drop (length L - nat cap) (L @ [e])"
    by (simp add: assms(2))
  also have "tl (drop (length L - nat cap) (L @ [e])) = drop (Suc (length L - nat cap)) (L @ [e])"
    by (simp only: drop_Suc tl_drop)
  also have "Suc (length L - nat cap) = length (L @ [e]) - nat cap"
    using False by simp
  finally show ?thesis .
qed

lemma step_telemetry:
  assumes "step s c = Inr (res, s')"
  shows "\<exists>e. ev_frame_idx e = c_frame_idx c \<and> ev_processed e = fst res
            \<and> self_telemetry_events s' =
                 append_bounded (self_max_telemetry_events s) (self_telemetry_events s) e
            \<and> self_max_telemetry_events s' = self_max_telemetry_events s"
proof (cases "c_seek_event c")
  case True
  with assms seek_decision [of s "c_clock c" "c_frame_idx c" "c_frame c" "c_detections c" "c_lock_on_active c"]
  show ?thesis by (auto simp: step_def sought_def)
next
  case False
  obtain p lbl where res: "res = (p, lbl)" by (cases res) auto
  with assms False have "should_process_frame s (c_clock c) (c_frame_idx c) (c_frame c)
     (c_detections c) (c_lock_on_active c) False = Inr ((p, lbl), s')" by (simp add: step_def)
  from non_seek_decision [OF this] obtain t n r where
    c: "choose_interval (entered s (c_frame_idx c)) (wall (c_clock c)) (c_frame c)
          (c_detections c) (c_lock_on_active c) = Inr (t, n, r)"
    and g: "gated (c_frame_idx c) (c_detections c) t n r p lbl s'" by blast
  from choose_interval_kept [OF c] entered_kept [of s "c_frame_idx c"]
  have t: "self_telemetry_events t = self_telemetry_events s"
       "self_max_telemetry_events t = self_max_telemetry_events s"
    by (simp_all add: kept_def)
  from g obtain e where "ev_frame_idx e = c_frame_idx c" "ev_processed e = p"
     "self_telemetry_events s' =
        append_bounded (self_max_telemetry_events t) (self_telemetry_events t) e"
     "self_max_telemetry_events s' = self_max_telemetry_events t"
    unfolding gated_def by blast
  then show ?thesis using t res by (intro exI [of _ e]) simp
qed

lemma run_telemetry:
  assumes "run s calls = Inr (ds, s')" and "0 \<le> self_max_telemetry_events s"
    and "self_telemetry_events s = drop (length L - nat (self_max_telemetry_events s)) L"
  shows "\<exists>log. map ev_frame_idx log = map c_frame_idx calls
             \<and> map ev_processed log = map fst ds
             \<and> self_telemetry_events s' =
                 drop (length (L @ log) - nat (self_max_telemetry_events s)) (L @ log)"
  using assms
proof (induction calls arbitrary: s ds L)
  case Nil
  then show ?case by simp
next
  case (Cons c cs)
  from Cons.prems(1) obtain d s1 ds1 where st: "step s c = Inr (d, s1)"
    and r: "run s1 cs = Inr (ds1, s')" and ds: "ds = d # ds1"
    by (auto split: sum.splits)
  from step_telemetry [OF st] obtain e where e: "ev_frame_idx e = c_frame_idx c"
     "ev_processed e = fst d"
     "self_telemetry_events s1 =
        append_bounded (self_max_telemetry_events s) (self_telemetry_events s) e"
     "self_max_telemetry_events s1 = self_max_telemetry_events s" by blast
  have t1: "self_telemetry_events s1 =
      drop (length (L @ [e]) - nat (self_max_telemetry_events s1)) (L @ [e])"
    using append_bounded_drop [OF Cons.prems(2) Cons.prems(3), of e] e(3,4) by simp
  from Cons.prems(2) e(4) have "0 \<le> self_max_telemetry_events s1" by simp
  from Cons.IH [OF r this t1] obtain log where
    log: "map ev_frame_idx log = map c_frame_idx cs" "map ev_processed log = map fst ds1"
     "self_telemetry_events s' =
        drop (length ((L @ [e]) @ log) - nat (self_max_telemetry_events s1)) ((L @ [e]) @ log)"
    by blast
  show ?case
    using log e ds by (intro exI [of _ "e # log"]) simp
qed

text \<open>
  C5. A session starts on a sampler with an empty telemetry buffer (a fresh or a reset
  sampler) of capacity \<open>self_max_telemetry_events\<close> (1000 unless assigned). Every call
  records one event: there is a log with one event per call, in the order of the calls,
  each with the frame index and the decision of its call, and after the session the
  buffer holds exactly the last capacity-many events of the log in that order; with
  \<open>capacity + k\<close> calls the first \<open>k\<close> events are gone. The buffer never holds more
  than its capacity.
\<close>

theorem telemetry_bounded_fifo:
  assumes "run s calls = Inr (ds, s')" and "self_telemetry_events s = []"
    and "0 \<le> self_max_telemetry_events s"
  shows "\<exists>log. map ev_frame_idx log = map c_frame_idx calls
             \<and> map ev_processed log = map fst ds
             \<and> self_telemetry_events s' =
                 drop (length log - nat (self_max_telemetry_events s)) log
             \<and> int (length (self_telemetry_events s')) \<le> self_max_telemetry_events s"
proof -
  from run_telemetry [OF assms(1) assms(3), of "[]"] assms(2) obtain log where
    log: "map ev_frame_idx log = map c_frame_idx calls" "map ev_processed log = map fst ds"
      "self_telemetry_events s' = drop (length log - nat (self_max_telemetry_events s)) log"
    by auto
  have "int (length (self_telemetry_events s')) \<le> self_max_telemetry_events s"
    using assms(3) by (simp add: log(3))
  with log show ?thesis by blast
qed

theorem telemetry_bounded_fifo_witness:
  "(case run small_buffer_sampler [plain_call 0, plain_call 1, plain_call 2] of
      Inl e \<Rightarrow> False
    | Inr (ds, s') \<Rightarrow> map ev_frame_idx (self_telemetry_events s') = [1, 2])"
proof -
  have "\<exists>x. run small_buffer_sampler [plain_call 0, plain_call 1, plain_call 2] = Inr x"
    by (simp add: decision_defs input_defs)
  then obtain ds s' where
    r: "run small_buffer_sampler [plain_call 0, plain_call 1, plain_call 2] = Inr (ds, s')"
    by (metis prod.exhaust)
  have e: "self_telemetry_events small_buffer_sampler = []"
    and c: "self_max_telemetry_events small_buffer_sampler = 2"
    by (simp_all add: input_defs init_def)
  have c0: "0 \<le> self_max_telemetry_events small_buffer_sampler" by (simp add: c)
  from telemetry_bounded_fifo [OF r e c0] obtain log where
    idx: "map ev_frame_idx log = map c_frame_idx [plain_call 0, plain_call 1, plain_call 2]"
    and buf0: "self_telemetry_events s' =
                 drop (length log - nat (self_max_telemetry_events small_buffer_sampler)) log"
    by blast
  from buf0 have buf: "self_telemetry_events s' = drop (length log - 2) log"
    by (simp add: c)
  from idx have i: "map ev_frame_idx log = [0, 1, 2]" by (simp add: plain_call_def)
  then have "length log = 3" by (metis length_map length_Cons list.size(3) numeral_3_eq_3)
  with buf have "self_telemetry_events s' = drop 1 log" by simp
  then have "map ev_frame_idx (self_telemetry_events s') = drop 1 (map ev_frame_idx log)"
    by (simp add: drop_map)
  with i have "map ev_frame_idx (self_telemetry_events s') = [1, 2]" by simp
  with r show ?thesis by simp
qed

subsection \<open>Crowd change\<close>

lemma crowd_stage_fires:
  assumes "enable_crowd_monitoring (config s)"
    and "self_prev_detection_count s = 2" and "length dets = 5"
    and "detection_change_threshold (config s) < 3 / 2"
  shows "crowd_stage (Some dets) (s, i, r) =
           (s\<lparr> self_stability_counter := 0, self_prev_detection_count := 5 \<rparr>,
            min i (min_interval (config s) + 1), CROWD_CHANGE)"
  using assms by (simp add: crowd_stage_def Let_def)

lemma crowd_stage_skips:
  assumes "enable_crowd_monitoring (config s)" and "self_prev_detection_count s \<le> 0"
  shows "crowd_stage (Some dets) (s, i, r) =
           (s\<lparr> self_prev_detection_count := int (length dets) \<rparr>, i, r)"
  using assms by (simp add: crowd_stage_def Let_def)

lemma crowd_stage_updates_count:
  assumes "enable_crowd_monitoring (config s)"
    and "crowd_stage (Some dets) (s, i, r) = (t, k, r')"
  shows "self_prev_detection_count t = int (length dets)"
  using assms by (auto simp: crowd_stage_def Let_def split: if_splits)

lemma id_stage_reason:
  assumes "id_stage (Some dets) (s, i, r) = (t, k, r')"
  shows "if id_switch_fires s dets then r' = ID_SWITCH \<and> k = min_interval (config s)
         else r' = r \<and> k = i"
  using assms by (auto simp: id_stage_def id_switch_fires_def Let_def split: if_splits)

lemma crowd_change_decision:
  assumes crowd: "enable_crowd_monitoring (config s)"
    and res: "calculate_adaptive_interval s f (Some dets) = Inr (t, k, r)"
  shows "self_prev_detection_count t = int (length dets)
         \<and> (self_prev_detection_count s = 2 \<and> length dets = 5
               \<and> detection_change_threshold (config s) < 3 / 2 \<longrightarrow>
              r = (if id_switch_fires s dets then ID_SWITCH else CROWD_CHANGE)
              \<and> k \<le> min_interval (config s) + 1)"
proof -
  from res obtain s1 i1 r1 where
    m: "motion_stage f (s, default_interval (config s), DEFAULT) = Inr (s1, i1, r1)"
    and rest: "clamp_stage (stability_stage (id_stage (Some dets)
                 (crowd_stage (Some dets) (s1, i1, r1)))) = (t, k, r)"
    by (auto simp: calculate_adaptive_interval_def split: sum.splits)
  obtain s2 i2 r2 where c: "crowd_stage (Some dets) (s1, i1, r1) = (s2, i2, r2)"
    by (cases "crowd_stage (Some dets) (s1, i1, r1)") auto
  obtain s3 i3 r3 where i: "id_stage (Some dets) (s2, i2, r2) = (s3, i3, r3)"
    by (cases "id_stage (Some dets) (s2, i2, r2)") auto
  obtain s4 i4 r4 where st: "stability_stage (s3, i3, r3) = (s4, i4, r4)"
    by (cases "stability_stage (s3, i3, r3)") auto
  from rest c i st have cl: "clamp_stage (s4, i4, r4) = (t, k, r)" by simp
  note M = motion_stage_kept [OF m] and C = crowd_stage_kept [OF c]
    and I = id_stage_kept [OF i] and S = stability_stage_kept [OF st]
    and L = clamp_stage_kept [OF cl]
  have cfg1: "config s1 = config s" using M by (simp add: kept_def)
  have cfg2: "config s2 = config s" using C cfg1 by (simp add: kept_def)
  have cfg3: "config s3 = config s" using I cfg2 by (simp add: kept_def)
  have ts: "t = s3" using S L by simp
  have crowd1: "enable_crowd_monitoring (config s1)" using crowd cfg1 by simp
  have "self_prev_detection_count s2 = int (length dets)"
    using crowd_stage_updates_count [OF crowd1 c] .
  then have count: "self_prev_detection_count t = int (length dets)"
    using I ts by simp
  have fires: "r = (if id_switch_fires s dets then ID_SWITCH else CROWD_CHANGE)
                \<and> k \<le> min_interval (config s) + 1"
    if h: "self_prev_detection_count s = 2" "length dets = 5"
          "detection_change_threshold (config s) < 3 / 2"
  proof -
    have p1: "self_prev_detection_count s1 = 2" using M h(1) by simp
    have th1: "detection_change_threshold (config s1) < 3 / 2" using h(3) cfg1 by simp
    from crowd_stage_fires [OF crowd1 p1 h(2) th1, of i1 r1] c
    have r2: "r2 = CROWD_CHANGE" and i2: "i2 = min i1 (min_interval (config s) + 1)"
      by (simp_all add: cfg1)
    have ids: "self_prev_track_ids s2 = self_prev_track_ids s" using M C by simp
    have f: "id_switch_fires s2 dets = id_switch_fires s dets"
      by (simp add: id_switch_fires_def cfg2 ids)
    from id_stage_reason [OF i] f
    have r3: "r3 = (if id_switch_fires s dets then ID_SWITCH else CROWD_CHANGE)"
      and i3: "i3 \<le> min_interval (config s) + 1"
      by (auto simp: r2 i2 cfg2 split: if_splits)
    from r3 have "r3 \<noteq> DEFAULT" by (simp split: if_splits)
    with S have r4: "r4 = r3" and i4: "i4 = i3" and s4: "s4 = s3" by auto
    from L r4 i4 s4 have "r = r3"
      and "k = max (min_interval (config s)) (min (max_interval (config s)) i3)"
      by (simp_all add: cfg3)
    with r3 i3 show ?thesis by simp
  qed
  from count fires show ?thesis by blast
qed

text \<open>
  C6, as stated, fails. The claim makes \<open>CROWD_CHANGE\<close> the reason of the decision
  whenever a stored count of 2 is followed by a count of 5. In the session below (the
  one of the repository's \<^verbatim>\<open>test_crowd_change_detection\<close>) the first call stores the
  count 2 and the identities 1 and 2; the second call brings five detections with the
  identities 1 to 5, the identity stage runs after the crowd stage, and the decision
  has the reason \<open>ID_SWITCH\<close> with interval 1.
\<close>

theorem crowd_change_overridden_by_id_switch:
  "map_sum id (\<lambda>(ds, s). self_prev_detection_count s)
     (run fresh_sampler [detect_call 0 (tracked [1, 2])]) = Inr 2
   \<and> map_sum id (\<lambda>(ds, s). (map snd ds, last_reason (metrics s)))
     (run fresh_sampler
        [detect_call 0 (tracked [1, 2]), detect_call 2 (tracked [1, 2, 3, 4, 5])])
     = Inr ([''default (interval=2)'', ''id_switch (interval=1)''], ID_SWITCH)"
proof -
  have ne: "({1, 2, 3, 4, 5} :: int set) \<noteq> {1, 2}"
  proof
    assume e: "({1, 2, 3, 4, 5} :: int set) = {1, 2}"
    have "(3 :: int) \<in> {1, 2, 3, 4, 5}" by simp
    then have "(3 :: int) \<in> {1, 2}" unfolding e .
    then show False by simp
  qed
  show ?thesis
    by (simp add: decision_defs input_defs current_ids_of_def List.map_filter_def
          label_defs ne)
qed

text \<open>
  C6, amended. With crowd monitoring enabled and a detection list supplied:
  when the stored previous count is 2, the current count is 5 and the threshold is below
  1.5 (the default is 0.3), the crowd stage sets the reason to \<open>CROWD_CHANGE\<close> and the
  interval to \<open>min interval (min_interval + 1)\<close>, whatever reason and interval the
  motion stage has left, and resets the stability counter; the reason of the decision is
  then \<open>CROWD_CHANGE\<close> unless the identity stage that follows fires, in which case it
  is \<open>ID_SWITCH\<close>, and the interval of the decision is at most \<open>min_interval + 1\<close>.
  When the stored previous count is 0 the crowd stage changes neither the reason nor
  the interval. In every case the stored previous count is the current count afterwards.
\<close>

theorem crowd_change_then_id_switch:
  assumes "enable_crowd_monitoring (config s)"
  shows "(self_prev_detection_count s = 2 \<and> length dets = 5
            \<and> detection_change_threshold (config s) < 3 / 2 \<longrightarrow>
          crowd_stage (Some dets) (s, i, r) =
            (s\<lparr> self_stability_counter := 0, self_prev_detection_count := 5 \<rparr>,
             min i (min_interval (config s) + 1), CROWD_CHANGE))
       \<and> (self_prev_detection_count s = 0 \<longrightarrow>
          crowd_stage (Some dets) (s, i, r) =
            (s\<lparr> self_prev_detection_count := int (length dets) \<rparr>, i, r))
       \<and> (\<forall>t k r'. calculate_adaptive_interval s f (Some dets) = Inr (t, k, r') \<longrightarrow>
            self_prev_detection_count t = int (length dets)
            \<and> (self_prev_detection_count s = 2 \<and> length dets = 5
                  \<and> detection_change_threshold (config s) < 3 / 2 \<longrightarrow>
                 r' = (if id_switch_fires s dets then ID_SWITCH else CROWD_CHANGE)
                 \<and> k \<le> min_interval (config s) + 1))"
proof (intro conjI allI impI)
  assume "self_prev_detection_count s = 2 \<and> length dets = 5
            \<and> detection_change_threshold (config s) < 3 / 2"
  then show "crowd_stage (Some dets) (s, i, r) =
            (s\<lparr> self_stability_counter := 0, self_prev_detection_count := 5 \<rparr>,
             min i (min_interval (config s) + 1), CROWD_CHANGE)"
    using crowd_stage_fires [OF assms, of dets i r] by blast
next
  assume "self_prev_detection_count s = 0"
  then show "crowd_stage (Some dets) (s, i, r) =
            (s\<lparr> self_prev_detection_count := int (length dets) \<rparr>, i, r)"
    using crowd_stage_skips [OF assms, of dets i r] by simp
next
  fix t k r'
  assume "calculate_adaptive_interval s f (Some dets) = Inr (t, k, r')"
  from crowd_change_decision [OF assms this]
  show "self_prev_detection_count t = int (length dets)" by blast
next
  fix t k r'
  assume a: "calculate_adaptive_interval s f (Some dets) = Inr (t, k, r')"
    and h: "self_prev_detection_count s = 2 \<and> length dets = 5
                  \<and> detection_change_threshold (config s) < 3 / 2"
  from crowd_change_decision [OF assms a] h
  show "r' = (if id_switch_fires s dets then ID_SWITCH else CROWD_CHANGE)" by blast
next
  fix t k r'
  assume a: "calculate_adaptive_interval s f (Some dets) = Inr (t, k, r')"
    and h: "self_prev_detection_count s = 2 \<and> length dets = 5
                  \<and> detection_change_threshold (config s) < 3 / 2"
  from crowd_change_decision [OF assms a] h
  show "k \<le> min_interval (config s) + 1" by blast
qed

theorem crowd_change_then_id_switch_witness:
  "crowd_stage (Some (untracked 5)) (tracking_sampler, 1, MOTION_SPIKE)
     = (tracking_sampler\<lparr> self_stability_counter := 0, self_prev_detection_count := 5 \<rparr>,
        1, CROWD_CHANGE)
   \<and> crowd_stage (Some (untracked 5)) (fresh_sampler, 2, DEFAULT)
     = (fresh_sampler\<lparr> self_prev_detection_count := 5 \<rparr>, 2, DEFAULT)
   \<and> (case calculate_adaptive_interval counting_sampler still_frame (Some (untracked 5)) of
         Inl e \<Rightarrow> False
       | Inr (t, k, r) \<Rightarrow> self_prev_detection_count t = 5 \<and> r = CROWD_CHANGE \<and> k \<le> 2)"
proof (intro conjI)
  have c: "enable_crowd_monitoring (config tracking_sampler)"
    and h: "self_prev_detection_count tracking_sampler = 2 \<and> length (untracked 5) = 5
            \<and> detection_change_threshold (config tracking_sampler) < 3 / 2"
    and m: "min_interval (config tracking_sampler) = 1"
    by (simp_all add: input_defs init_def AdaptiveSamplingConfig_default_def)
  from crowd_change_then_id_switch [OF c, of "untracked 5" 1 MOTION_SPIKE] h m
  show "crowd_stage (Some (untracked 5)) (tracking_sampler, 1, MOTION_SPIKE)
     = (tracking_sampler\<lparr> self_stability_counter := 0, self_prev_detection_count := 5 \<rparr>,
        1, CROWD_CHANGE)"
    by simp
next
  have c: "enable_crowd_monitoring (config fresh_sampler)"
    and h: "self_prev_detection_count fresh_sampler = 0"
    and l: "length (untracked 5) = 5"
    by (simp_all add: input_defs init_def AdaptiveSamplingConfig_default_def)
  from crowd_change_then_id_switch [OF c, of "untracked 5" 2 DEFAULT] h l
  show "crowd_stage (Some (untracked 5)) (fresh_sampler, 2, DEFAULT)
     = (fresh_sampler\<lparr> self_prev_detection_count := 5 \<rparr>, 2, DEFAULT)"
    by simp
next
  have c: "enable_crowd_monitoring (config counting_sampler)"
    and h: "self_prev_detection_count counting_sampler = 2 \<and> length (untracked 5) = 5
            \<and> detection_change_threshold (config counting_sampler) < 3 / 2"
    and m: "min_interval (config counting_sampler) = 1"
    and n: "\<not> id_switch_fires counting_sampler (untracked 5)"
    by (simp_all add: input_defs init_def AdaptiveSamplingConfig_default_def
          id_switch_fires_def)
  have "\<exists>x. calculate_adaptive_interval counting_sampler still_frame (Some (untracked 5)) = Inr x"
    by (simp add: decision_defs input_defs current_ids_of_def List.map_filter_def)
  then obtain t k r where
    eq: "calculate_adaptive_interval counting_sampler still_frame (Some (untracked 5))
           = Inr (t, k, r)"
    by (metis prod.exhaust)
  from crowd_change_then_id_switch [OF c, of "untracked 5" 2 DEFAULT still_frame] eq h m n
  have "self_prev_detection_count t = 5 \<and> r = CROWD_CHANGE \<and> k \<le> 2"
    by simp
  with eq show "case calculate_adaptive_interval counting_sampler still_frame (Some (untracked 5)) of
         Inl e \<Rightarrow> False
       | Inr (t, k, r) \<Rightarrow> self_prev_detection_count t = 5 \<and> r = CROWD_CHANGE \<and> k \<le> 2"
    by simp
qed

subsection \<open>Reset\<close>

text \<open>
  C7. For every sampler state, \<open>reset\<close> gives the state of a freshly constructed sampler
  with the same configuration: every mutable field (last processed frame, frame count,
  current interval, motion history, previous frame, previous identities, previous
  detection count, stability counter, both boost counters, last seek time, metrics,
  telemetry log) has its initial value. The capacity of the telemetry log is a constant
  of the object that no method assigns; \<open>reset\<close> leaves it as it is.
\<close>

theorem reset_restores_fresh_state:
  "reset s = (init (config s))\<lparr> self_max_telemetry_events := self_max_telemetry_events s \<rparr>"
  by (simp add: reset_def init_def)

subsection \<open>The motion score\<close>

text \<open>
  C8, as stated, fails. A zero-area frame is not scored 0: the grayscale conversion
  rejects an empty image, so the scorer and the decision raise. A frame whose shape
  differs from the stored previous frame's is rejected by the frame difference, so the
  second call of the session below raises although both frames have positive height and
  width.
\<close>

theorem degenerate_and_resized_frames_raise:
  "calculate_motion_score fresh_sampler empty_frame = Inl CvError
   \<and> should_process_frame fresh_sampler plain_clock 0 empty_frame None False False = Inl CvError
   \<and> run fresh_sampler [frame_call 0 (square_frame 2), frame_call 1 (square_frame 3)] = Inl CvError"
  by (simp add: decision_defs input_defs)

lemma np_sum_positive_le: "np_sum_positive f \<le> shape0 f * shape1 f"
proof -
  have "np_sum_positive f \<le> length (List.product [0..<shape0 f] [0..<shape1 f])"
    unfolding np_sum_positive_def by (rule length_filter_le)
  then show ?thesis by simp
qed

lemma calculate_motion_score_total:
  assumes "0 < shape0 f" and "0 < shape1 f"
    and "case self_prev_frame_gray s of None \<Rightarrow> True
         | Some g \<Rightarrow> shape0 g = shape0 f \<and> shape1 g = shape1 f"
  shows "\<exists>x. calculate_motion_score s f = Inr (Fin x, s\<lparr> self_prev_frame_gray := Some f \<rparr>)
             \<and> 0 \<le> x \<and> x \<le> 1 \<and> (self_prev_frame_gray s = None \<longrightarrow> x = 0)"
proof (cases "self_prev_frame_gray s")
  case None
  with assms show ?thesis
    by (simp add: calculate_motion_score_def cv2_cvtColor_GaussianBlur_def)
next
  case (Some g)
  with assms have sh: "shape0 g = shape0 f" "shape1 g = shape1 f" by simp_all
  define diff where "diff = \<lparr> shape0 = shape0 f, shape1 = shape1 f,
                 gray = (\<lambda>i j. if gray g i j \<le> gray f i j
                                then gray f i j - gray g i j
                                else gray g i j - gray f i j) \<rparr>"
  define thresh where "thresh = cv2_threshold_binary 25 255 diff"
  have ab: "cv2_absdiff g f = Inr diff"
    by (simp add: cv2_absdiff_def sh diff_def)
  have tsh: "shape0 thresh = shape0 f" "shape1 thresh = shape1 f"
    by (simp_all add: thresh_def cv2_threshold_binary_def diff_def)
  have pos: "0 < shape0 thresh * shape1 thresh" using assms tsh by simp
  have le: "np_sum_positive thresh \<le> shape0 thresh * shape1 thresh"
    by (rule np_sum_positive_le)
  define x where "x = real (np_sum_positive thresh) / real (shape0 thresh * shape1 thresh)"
  have rl: "real (np_sum_positive thresh) \<le> real (shape0 thresh * shape1 thresh)"
    using le by (simp only: of_nat_le_iff)
  have rp: "0 < real (shape0 thresh * shape1 thresh)"
    using pos by (simp only: of_nat_0_less_iff)
  have x: "0 \<le> x" "x \<le> 1"
    unfolding x_def using rl rp by (simp_all only: divide_le_eq_1_pos zero_le_divide_iff of_nat_0_le_iff simp_thms)
  have "np_true_divide (np_sum_positive thresh) (shape0 thresh * shape1 thresh) = Fin x"
    using pos by (simp add: np_true_divide_def x_def)
  then have "calculate_motion_score s f = Inr (Fin x, s\<lparr> self_prev_frame_gray := Some f \<rparr>)"
    using assms(1,2) Some ab
    by (simp add: calculate_motion_score_def cv2_cvtColor_GaussianBlur_def Let_def thresh_def)
  with x Some show ?thesis by auto
qed

lemma motion_stage_total:
  assumes "calculate_motion_score s f = Inr (x, t)"
  shows "\<exists>st. motion_stage f (s, i, r) = Inr st"
  using assms by (simp add: motion_stage_def Let_def)

lemma should_process_frame_total:
  assumes "calculate_motion_score (entered s i) f = Inr (x, t)"
  shows "\<exists>res s'. should_process_frame s clk i f d l k = Inr (res, s')"
proof (cases k)
  case True
  with seek_decision [of s clk i f d l] show ?thesis by auto
next
  case False
  obtain st0 where "motion_stage f (entered s i, default_interval (config (entered s i)), DEFAULT) = Inr st0"
    using motion_stage_total [OF assms] by blast
  then have "calculate_adaptive_interval (entered s i) f d
               = Inr (clamp_stage (stability_stage (id_stage d (crowd_stage d st0))))"
    by (simp add: calculate_adaptive_interval_def)
  then have "choose_interval (entered s i) (wall clk) f d l \<noteq> Inl CvError"
    by (simp add: choose_interval_def)
  then obtain st where c: "choose_interval (entered s i) (wall clk) f d l = Inr st"
    by (cases "choose_interval (entered s i) (wall clk) f d l") (auto intro: error.exhaust)
  obtain res s' where "apply_interval clk i d st = (res, s')"
    by (cases "apply_interval clk i d st") auto
  with c False have "should_process_frame s clk i f d l k = Inr (res, s')"
    by (simp add: should_process_frame_def Let_def entered_def)
  then show ?thesis by blast
qed

text \<open>
  C8, amended. For every frame of positive height and width that has the shape of the
  stored previous frame, when one is stored, the scorer does not raise, it stores the
  frame as the previous one, and the motion score lies between 0 and 1: it is 0 when no
  previous frame is stored. On such a frame no call of the decision raises, whatever the
  state, the detections and the flags.
\<close>

theorem motion_score_of_well_shaped_frame:
  assumes "0 < shape0 f" and "0 < shape1 f"
    and "case self_prev_frame_gray s of None \<Rightarrow> True
         | Some g \<Rightarrow> shape0 g = shape0 f \<and> shape1 g = shape1 f"
  shows "(\<exists>x. calculate_motion_score s f = Inr (Fin x, s\<lparr> self_prev_frame_gray := Some f \<rparr>)
             \<and> 0 \<le> x \<and> x \<le> 1 \<and> (self_prev_frame_gray s = None \<longrightarrow> x = 0))
         \<and> (\<exists>res s'. should_process_frame s clk i f d l k = Inr (res, s'))"
proof
  show "\<exists>x. calculate_motion_score s f = Inr (Fin x, s\<lparr> self_prev_frame_gray := Some f \<rparr>)
             \<and> 0 \<le> x \<and> x \<le> 1 \<and> (self_prev_frame_gray s = None \<longrightarrow> x = 0)"
    using assms by (rule calculate_motion_score_total)
next
  have "case self_prev_frame_gray (entered s i) of None \<Rightarrow> True
         | Some g \<Rightarrow> shape0 g = shape0 f \<and> shape1 g = shape1 f"
    using assms(3) by (simp add: entered_def)
  from calculate_motion_score_total [OF assms(1,2) this]
  obtain x t where "calculate_motion_score (entered s i) f = Inr (x, t)" by blast
  then show "\<exists>res s'. should_process_frame s clk i f d l k = Inr (res, s')"
    by (rule should_process_frame_total)
qed

theorem motion_score_of_well_shaped_frame_witness:
  "calculate_motion_score fresh_sampler still_frame
     = Inr (Fin 0, fresh_sampler\<lparr> self_prev_frame_gray := Some still_frame \<rparr>)"
proof -
  have a: "0 < shape0 still_frame" "0 < shape1 still_frame"
    by (simp_all add: still_frame_def)
  have n: "self_prev_frame_gray fresh_sampler = None"
    by (simp add: fresh_sampler_def init_def)
  then have b: "case self_prev_frame_gray fresh_sampler of None \<Rightarrow> True
         | Some g \<Rightarrow> shape0 g = shape0 still_frame \<and> shape1 g = shape1 still_frame"
    by simp
  from motion_score_of_well_shaped_frame [OF a b] n show ?thesis by auto
qed

subsection \<open>The reasons of a decision\<close>

text \<open>
  C9. Whenever a call returns, the reason of its decision is not \<open>INITIALIZATION\<close>:
  not the last reason of the metrics, not the reason in the returned label, and not the
  reason of the telemetry event the call records.
\<close>

theorem never_initialization:
  assumes "should_process_frame s clk i f d l k = Inr ((p, lbl), s')"
  shows "last_reason (metrics s') \<noteq> INITIALIZATION
         \<and> (lbl = ''User seek event'' \<or> (\<exists>r n. r \<noteq> INITIALIZATION \<and> lbl = reason_str r n))
         \<and> (\<exists>e. ev_reason e \<noteq> reason_value INITIALIZATION
                \<and> self_telemetry_events s' =
                     append_bounded (self_max_telemetry_events s) (self_telemetry_events s) e)"
proof (cases k)
  case True
  from seek_decision [of s clk i f d l] assms True
  have lbl: "lbl = ''User seek event''" and s: "sought s clk i s'" by auto
  from s obtain e where e: "ev_reason e = reason_value USER_SEEK"
     "self_telemetry_events s' =
        append_bounded (self_max_telemetry_events s) (self_telemetry_events s) e"
    unfolding sought_def by blast
  have "\<exists>e. ev_reason e \<noteq> reason_value INITIALIZATION
                \<and> self_telemetry_events s' =
                     append_bounded (self_max_telemetry_events s) (self_telemetry_events s) e"
    using e by (intro exI [of _ e]) simp
  with lbl s show ?thesis by (simp add: sought_def)
next
  case False
  with assms have "should_process_frame s clk i f d l False = Inr ((p, lbl), s')" by simp
  from non_seek_decision [OF this] obtain t n r where
    c: "choose_interval (entered s i) (wall clk) f d l = Inr (t, n, r)"
    and g: "gated i d t n r p lbl s'" by blast
  from choose_interval_kept [OF c] entered_kept [of s i]
  have r: "r \<noteq> INITIALIZATION"
    and t: "self_telemetry_events t = self_telemetry_events s"
       "self_max_telemetry_events t = self_max_telemetry_events s"
    by (simp_all add: kept_def)
  from g obtain e where e: "ev_reason e = reason_value r"
     "self_telemetry_events s' =
        append_bounded (self_max_telemetry_events t) (self_telemetry_events t) e"
    unfolding gated_def by blast
  have "last_reason (metrics s') \<noteq> INITIALIZATION" using g r by (simp add: gated_def)
  moreover have "\<exists>r n. r \<noteq> INITIALIZATION \<and> lbl = reason_str r n"
    using g r unfolding gated_def by blast
  moreover have "\<exists>e. ev_reason e \<noteq> reason_value INITIALIZATION
                \<and> self_telemetry_events s' =
                     append_bounded (self_max_telemetry_events s) (self_telemetry_events s) e"
    using e t reason_value_initialization [OF r] by (intro exI [of _ e]) simp
  ultimately show ?thesis by blast
qed

theorem never_initialization_witness:
  "(case should_process_frame fresh_sampler plain_clock 0 still_frame None False False of
      Inl e \<Rightarrow> False
    | Inr ((p, lbl), s') \<Rightarrow> last_reason (metrics s') \<noteq> INITIALIZATION)"
proof -
  have "\<exists>x. should_process_frame fresh_sampler plain_clock 0 still_frame None False False
          = Inr x"
    by (simp add: decision_defs input_defs) blast
  then obtain p lbl s' where
    eq: "should_process_frame fresh_sampler plain_clock 0 still_frame None False False
          = Inr ((p, lbl), s')" by (metis prod.exhaust)
  from never_initialization [OF eq]
  have "last_reason (metrics s') \<noteq> INITIALIZATION" by blast
  with eq show ?thesis by simp
qed

subsection \<open>Omitted detections\<close>

text \<open>
  C10. Whenever a call with \<open>detections = None\<close> returns, the stored previous
  detection count, the stored previous identity set and the detections-seen counter of
  the metrics are what they were before the call.
\<close>

theorem omitted_detections_leave_state:
  assumes "should_process_frame s clk i f None l k = Inr (res, s')"
  shows "self_prev_detection_count s' = self_prev_detection_count s
         \<and> self_prev_track_ids s' = self_prev_track_ids s
         \<and> detection_count (metrics s') = detection_count (metrics s)"
proof (cases k)
  case True
  with assms seek_decision [of s clk i f None l] show ?thesis by (auto simp: sought_def)
next
  case False
  obtain p lbl where res: "res = (p, lbl)" by (cases res) auto
  with assms False have "should_process_frame s clk i f None l False = Inr ((p, lbl), s')" by simp
  from non_seek_decision [OF this] obtain t n r where
    c: "choose_interval (entered s i) (wall clk) f None l = Inr (t, n, r)"
    and g: "gated i None t n r p lbl s'" by blast
  from choose_interval_kept [OF c] entered_kept [of s i]
  have "self_prev_detection_count t = self_prev_detection_count s"
       "self_prev_track_ids t = self_prev_track_ids s"
       "detection_count (metrics t) = detection_count (metrics s)"
    by (simp_all add: kept_def entered_fields)
  with g show ?thesis by (simp add: gated_def)
qed

theorem omitted_detections_leave_state_witness:
  "(case should_process_frame tracking_sampler plain_clock 0 still_frame None False False of
      Inl e \<Rightarrow> False
    | Inr (res, s') \<Rightarrow>
        self_prev_detection_count s' = 2 \<and> self_prev_track_ids s' = {1, 2}
        \<and> detection_count (metrics s') = 0)"
proof -
  have "\<exists>x. should_process_frame tracking_sampler plain_clock 0 still_frame None False False
          = Inr x"
    by (simp add: decision_defs input_defs) blast
  then obtain res s' where
    eq: "should_process_frame tracking_sampler plain_clock 0 still_frame None False False
          = Inr (res, s')" by (metis prod.exhaust)
  from omitted_detections_leave_state [OF eq]
  have "self_prev_detection_count s' = 2 \<and> self_prev_track_ids s' = {1, 2}
        \<and> detection_count (metrics s') = 0"
    by (simp add: input_defs decision_defs)
  with eq show ?thesis by simp
qed

end
